theory Spec2Isabelle
  imports Complex_Main
begin

section \<open>Student attendance system: data model\<close>

text \<open>
  The embedding follows \<^verbatim>\<open>student_attendance_system.py\<close>, class
  \<^verbatim>\<open>StudentAttendanceSystem\<close>. Python strings are byte lists in UTF-8; the separator
  \<^verbatim>\<open>_\<close> is ASCII, so splitting on it is the same on bytes and on code points.
  A confidence is the distance reported by the recogniser; the model computes with it
  in exact arithmetic, rounding of machine floats is left out.
\<close>

datatype py_error = ValueError | ZeroDivisionError | IndexError | OSError

text \<open>How a call ends: it returns a value or an exception leaves it.\<close>

datatype 'a outcome = Returned 'a | Raised py_error

text \<open>The lines the system prints, by kind.\<close>

datatype message =
    LoadedCount nat
  | LoadWarning
  | Recorded string string string
  | RecordError

type_synonym row = "string list"

type_synonym observation = "string \<times> real"

text \<open>
  The fields of the object that the modelled methods read or write, and, in
  \<open>attendance_file\<close>, the rows of the CSV file at that path (\<open>None\<close> when the file does
  not exist). \<open>console\<close> collects what was printed.
\<close>

record system =
  today_attendance :: "string set"
  recognition_buffer :: "string \<rightharpoonup> observation list"
  buffer_threshold :: int
  attendance_file :: "row list option"
  console :: "message list"

text \<open>The fields as \<^verbatim>\<open>__init__\<close> sets them, before \<^verbatim>\<open>setup_system\<close> runs.\<close>

definition init :: "row list option \<Rightarrow> system" where
  "init file =
     \<lparr> today_attendance = {},
       recognition_buffer = Map.empty,
       buffer_threshold = 3,
       attendance_file = file,
       console = [] \<rparr>"

section \<open>Identity codec\<close>

text \<open>\<^verbatim>\<open>s.rsplit(sep, 1)\<close>: split at the last occurrence of the separator, if there is one.\<close>

definition rsplit1 :: "char \<Rightarrow> string \<Rightarrow> string list" where
  "rsplit1 sep s =
     (if sep \<in> set s
      then (let after = rev (takeWhile (\<lambda>c. c \<noteq> sep) (rev s));
                before = take (length s - length after - 1) s
            in [before, after])
      else [s])"

text \<open>The pair returned by the \<^verbatim>\<open>except\<close> branch: the name is U+4E0D U+660E in UTF-8.\<close>

definition unknown_pair :: "string \<times> string" where
  "unknown_pair =
     ([CHR 0xE4, CHR 0xB8, CHR 0x8D, CHR 0xE6, CHR 0x98, CHR 0x8E], ''000'')"

text \<open>
  \<^verbatim>\<open>parse_name_id\<close>. An \<^verbatim>\<open>IndexError\<close> at \<^verbatim>\<open>parts[0]\<close> or \<^verbatim>\<open>parts[1]\<close> is caught by the
  bare \<^verbatim>\<open>except\<close> and gives the unknown pair.
\<close>

definition parse_name_id :: "string \<Rightarrow> string \<times> string" where
  "parse_name_id name_id =
     (if CHR ''_'' \<in> set name_id
      then (case rsplit1 (CHR ''_'') name_id of
              p0 # p1 # _ \<Rightarrow> (p0, p1)
            | _ \<Rightarrow> unknown_pair)
      else (name_id, ''000''))"

text \<open>The composite key built in \<^verbatim>\<open>load_today_attendance\<close>: \<^verbatim>\<open>f"{row[2]}_{row[3]}"\<close>.\<close>

definition join_name_id :: "string \<Rightarrow> string \<Rightarrow> string" where
  "join_name_id name student_id = name @ ''_'' @ student_id"

section \<open>Attendance ledger\<close>

text \<open>
  The loop body of \<^verbatim>\<open>load_today_attendance\<close>: a row with at least four fields whose
  first field is today's date adds its key to the set.
\<close>

definition dated_today :: "string \<Rightarrow> row \<Rightarrow> bool" where
  "dated_today today r = (length r \<ge> 4 \<and> r ! 0 = today)"

definition row_key :: "row \<Rightarrow> string" where
  "row_key r = join_name_id (r ! 2) (r ! 3)"

definition scan_row :: "string \<Rightarrow> string set \<Rightarrow> row \<Rightarrow> string set" where
  "scan_row today acc r =
     (if dated_today today r then insert (row_key r) acc else acc)"

definition scan_rows :: "string \<Rightarrow> row list \<Rightarrow> string set" where
  "scan_rows today rows = foldl (scan_row today) {} rows"

text \<open>
  \<^verbatim>\<open>load_today_attendance\<close>. \<open>today\<close> is the formatted current date. \<open>fault\<close> is what the
  file system does when the file is read: \<open>None\<close> when reading succeeds, \<open>Some n\<close> when
  an exception is raised after the reader has delivered \<open>n\<close> rows (\<open>Some 0\<close>: opening the
  file fails). The set is emptied before the file is looked at; the first row is
  skipped by \<^verbatim>\<open>next(reader, None)\<close>; the exception is caught and a warning printed.
\<close>

definition load_today_attendance ::
  "string \<Rightarrow> nat option \<Rightarrow> system \<Rightarrow> system \<times> unit outcome" where
  "load_today_attendance today fault s =
     (let s1 = s\<lparr>today_attendance := {}\<rparr> in
      case attendance_file s1 of
        None \<Rightarrow> (s1, Returned ())
      | Some rows \<Rightarrow>
          (case fault of
             None \<Rightarrow>
               (let s2 = s1\<lparr>today_attendance := scan_rows today (drop 1 rows)\<rparr>
                in (s2\<lparr>console := console s2 @ [LoadedCount (card (today_attendance s2))]\<rparr>,
                    Returned ()))
           | Some n \<Rightarrow>
               (let s2 = s1\<lparr>today_attendance := scan_rows today (drop 1 (take n rows))\<rparr>
                in (s2\<lparr>console := console s2 @ [LoadWarning]\<rparr>, Returned ()))))"

text \<open>
  \<^verbatim>\<open>record_attendance\<close>. \<open>now\<close> is the formatted current date and time, \<open>fmt\<close> the
  one-decimal formatting of the confidence, \<open>append_ok\<close> whether the file system lets
  the row be appended (opening in mode \<^verbatim>\<open>"a"\<close> creates a missing file). A failed append
  raises inside the \<^verbatim>\<open>try\<close>; the \<^verbatim>\<open>except\<close> branch prints and returns \<^verbatim>\<open>False\<close>.
\<close>

definition record_attendance ::
  "string \<times> string \<Rightarrow> (real \<Rightarrow> string) \<Rightarrow> bool \<Rightarrow> system \<Rightarrow> string \<Rightarrow> real
     \<Rightarrow> system \<times> bool outcome" where
  "record_attendance now fmt append_ok s name_id confidence =
     (if name_id \<in> today_attendance s then (s, Returned False)
      else
        (let (name, student_id) = parse_name_id name_id;
             (date_str, time_str) = now
         in if append_ok
            then
              (let r = [date_str, time_str, name, student_id, fmt confidence];
                   s1 = s\<lparr>attendance_file :=
                           Some (case attendance_file s of None \<Rightarrow> [r] | Some rows \<Rightarrow> rows @ [r])\<rparr>;
                   s2 = s1\<lparr>today_attendance := insert name_id (today_attendance s1)\<rparr>
               in (s2\<lparr>console := console s2 @ [Recorded name student_id (fmt confidence)]\<rparr>,
                   Returned True))
            else (s\<lparr>console := console s @ [RecordError]\<rparr>, Returned False)))"

section \<open>Recognition smoother\<close>

text \<open>
  \<^verbatim>\<open>max(iterable, key=...)\<close>: the first element of the iteration whose key is largest
  (a later element replaces the current one only when its key is strictly greater);
  \<^verbatim>\<open>ValueError\<close> on an empty iteration.
\<close>

fun py_max :: "('a \<Rightarrow> nat) \<Rightarrow> 'a list \<Rightarrow> py_error + 'a" where
  "py_max key [] = Inl ValueError"
| "py_max key (x # xs) = Inr (foldl (\<lambda>best y. if key best < key y then y else best) x xs)"

text \<open>
  \<^verbatim>\<open>max(set(names), key=names.count)\<close>. The order in which Python iterates over the set
  is not fixed by the program; \<open>set_order names\<close> is the iteration of \<^verbatim>\<open>set(names)\<close>.
\<close>

definition most_common_name ::
  "(string list \<Rightarrow> string list) \<Rightarrow> string list \<Rightarrow> py_error + string" where
  "most_common_name set_order names = py_max (count_list names) (set_order names)"

text \<open>What an iteration order of sets has to satisfy: each member once, nothing else.\<close>

definition set_iteration :: "(string list \<Rightarrow> string list) \<Rightarrow> bool" where
  "set_iteration set_order =
     (\<forall>names. distinct (set_order names) \<and> set (set_order names) = set names)"

text \<open>
  \<^verbatim>\<open>update_recognition_buffer\<close>. The slot's list is created when missing, the observation
  appended, and one element popped from the front when the list is longer than the
  threshold. The returned pair \<^verbatim>\<open>(None, None)\<close> is \<open>None\<close>. An exception leaves the
  buffer as it was modified up to then.
\<close>

definition update_recognition_buffer ::
  "(string list \<Rightarrow> string list) \<Rightarrow> system \<Rightarrow> string \<Rightarrow> string \<Rightarrow> real
     \<Rightarrow> system \<times> observation option outcome" where
  "update_recognition_buffer set_order s face_id name_id confidence =
     (let old = (case recognition_buffer s face_id of None \<Rightarrow> [] | Some h \<Rightarrow> h);
          appended = old @ [(name_id, confidence)];
          hist = (if int (length appended) > buffer_threshold s then tl appended else appended);
          s1 = s\<lparr>recognition_buffer := (recognition_buffer s)(face_id \<mapsto> hist)\<rparr>
      in if int (length hist) \<ge> buffer_threshold s
         then
           (let names = map fst hist in
            case most_common_name set_order names of
              Inl e \<Rightarrow> (s1, Raised e)
            | Inr most_common \<Rightarrow>
                if int (count_list names most_common) \<ge> buffer_threshold s - 1
                then
                  (if count_list names most_common = 0 then (s1, Raised ZeroDivisionError)
                   else (s1, Returned (Some (most_common,
                           sum_list (map snd (filter (\<lambda>item. fst item = most_common) hist))
                             / real (count_list names most_common)))))
                else (s1, Returned None))
         else (s1, Returned None))"

text \<open>Feeding a list of observations to one slot, call after call; the results in order.\<close>

fun observe_all ::
  "(string list \<Rightarrow> string list) \<Rightarrow> system \<Rightarrow> string \<Rightarrow> observation list
     \<Rightarrow> system \<times> observation option outcome list" where
  "observe_all set_order s face_id [] = (s, [])"
| "observe_all set_order s face_id (ob # obs) =
     (let (s1, r) = update_recognition_buffer set_order s face_id (fst ob) (snd ob);
          (s2, rs) = observe_all set_order s1 face_id obs
      in (s2, r # rs))"

text \<open>A sequence of calls on any slots: the state after the last one.\<close>

fun run_calls ::
  "(string list \<Rightarrow> string list) \<Rightarrow> system \<Rightarrow> (string \<times> observation) list \<Rightarrow> system" where
  "run_calls set_order s [] = s"
| "run_calls set_order s (c # cs) =
     run_calls set_order (fst (update_recognition_buffer set_order s (fst c) (fst (snd c)) (snd (snd c)))) cs"

text \<open>The last \<open>k\<close> elements of a list, all of them when there are fewer.\<close>

definition last_n :: "nat \<Rightarrow> 'a list \<Rightarrow> 'a list" where
  "last_n k xs = drop (length xs - k) xs"

text \<open>The list held for a slot; a slot never seen holds nothing.\<close>

definition slot_history :: "system \<Rightarrow> string \<Rightarrow> observation list" where
  "slot_history s face_id = (case recognition_buffer s face_id of None \<Rightarrow> [] | Some h \<Rightarrow> h)"

section \<open>Properties of the identity codec\<close>

lemma rsplit1_join:
  assumes "sep \<notin> set b"
  shows "rsplit1 sep (a @ sep # b) = [a, b]"
proof -
  have tw: "takeWhile (\<lambda>c. c \<noteq> sep) (rev b @ sep # rev a) = rev b"
    using assms by (subst takeWhile_append2) auto
  show ?thesis
    by (simp add: rsplit1_def Let_def tw)
qed

lemma rsplit1_split:
  assumes "sep \<in> set s"
  shows "\<exists>a b. rsplit1 sep s = [a, b] \<and> s = a @ sep # b \<and> sep \<notin> set b"
proof -
  define b where "b = rev (takeWhile (\<lambda>c. c \<noteq> sep) (rev s))"
  define d where "d = dropWhile (\<lambda>c. c \<noteq> sep) (rev s)"
  have "sep \<in> set (rev s)" using assms by simp
  then have "d \<noteq> []" unfolding d_def by simp
  moreover have "hd d = sep"
    using \<open>d \<noteq> []\<close> hd_dropWhile[of "\<lambda>c. c \<noteq> sep" "rev s"] unfolding d_def by auto
  ultimately obtain a' where d: "d = sep # a'" by (cases d) auto
  have "rev s = rev b @ d" unfolding b_def d_def by simp
  then have s: "s = rev a' @ sep # b" using d
    by (metis rev_append rev_rev_ident rev.simps(2) append.assoc append_Cons append_Nil)
  have nb: "sep \<notin> set b" unfolding b_def
    by (auto dest: set_takeWhileD)
  have "rsplit1 sep s = [rev a', b]"
    using rsplit1_join[OF nb, of "rev a'"] s by simp
  with s nb show ?thesis by blast
qed

text \<open>
  Claim C6. Joining a name and a student id that holds no \<^verbatim>\<open>_\<close> and parsing the key
  gives the two parts back, whatever the name holds.
\<close>

theorem parse_join_roundtrip:
  "CHR ''_'' \<notin> set student_id \<Longrightarrow>
     parse_name_id (join_name_id name student_id) = (name, student_id)"
  by (simp add: parse_name_id_def join_name_id_def rsplit1_join)

theorem parse_join_roundtrip_witness:
  "CHR ''_'' \<notin> set ''007'' \<and>
   parse_name_id (join_name_id ''Ann_Lee'' ''007'') = (''Ann_Lee'', ''007'')"
  using parse_join_roundtrip [of "''007''" "''Ann_Lee''"] by simp

text \<open>
  Claim C10. A key that holds a \<^verbatim>\<open>_\<close> is the join of the two parts that parsing it
  returns: the split drops the separator only.
\<close>

theorem join_parse_roundtrip:
  "CHR ''_'' \<in> set key \<Longrightarrow>
     join_name_id (fst (parse_name_id key)) (snd (parse_name_id key)) = key"
proof -
  assume h: "CHR ''_'' \<in> set key"
  from rsplit1_split[OF h] obtain a b where
    r: "rsplit1 (CHR ''_'') key = [a, b]" and k: "key = a @ CHR ''_'' # b" by blast
  have "parse_name_id key = (a, b)" using h r by (simp add: parse_name_id_def)
  then show ?thesis using k by (simp add: join_name_id_def)
qed

theorem join_parse_roundtrip_witness:
  "CHR ''_'' \<in> set ''Ann_Lee_007'' \<and>
   join_name_id (fst (parse_name_id ''Ann_Lee_007'')) (snd (parse_name_id ''Ann_Lee_007''))
     = ''Ann_Lee_007''"
  using join_parse_roundtrip [of "''Ann_Lee_007''"] by simp

section \<open>Properties of the attendance ledger\<close>

lemma foldl_scan_row:
  "foldl (scan_row today) acc rows = acc \<union> row_key ` {r \<in> set rows. dated_today today r}"
  by (induction rows arbitrary: acc) (auto simp: scan_row_def)

lemma scan_rows_image:
  "scan_rows today rows = row_key ` {r \<in> set rows. dated_today today r}"
  by (simp add: scan_rows_def foldl_scan_row)

lemma scan_rows_filter:
  "scan_rows today rows = set (map row_key (filter (dated_today today) rows))"
  by (auto simp: scan_rows_image)

text \<open>
  Claim C1. For an identity key that is already in the day's set, \<^verbatim>\<open>record_attendance\<close>
  returns \<^verbatim>\<open>False\<close>, the rows of the file are the same afterwards and so is the set.
\<close>

theorem record_attendance_idempotent:
  assumes "name_id \<in> today_attendance s"
  shows "snd (record_attendance now fmt append_ok s name_id confidence) = Returned False
    \<and> attendance_file (fst (record_attendance now fmt append_ok s name_id confidence))
        = attendance_file s
    \<and> today_attendance (fst (record_attendance now fmt append_ok s name_id confidence))
        = today_attendance s"
  using assms by (simp add: record_attendance_def)

theorem record_attendance_idempotent_witness:
  "''Alice_001'' \<in> today_attendance ((init (Some [[''d'', ''t'', ''n'', ''i'', ''c'']]))\<lparr>today_attendance := {''Alice_001''}\<rparr>)
   \<and> snd (record_attendance (''2024-05-01'', ''09:00:00'') (\<lambda>c. ''41.0'') True
        ((init (Some [[''d'', ''t'', ''n'', ''i'', ''c'']]))\<lparr>today_attendance := {''Alice_001''}\<rparr>) ''Alice_001'' 41) = Returned False
   \<and> attendance_file (fst (record_attendance (''2024-05-01'', ''09:00:00'') (\<lambda>c. ''41.0'') True
        ((init (Some [[''d'', ''t'', ''n'', ''i'', ''c'']]))\<lparr>today_attendance := {''Alice_001''}\<rparr>) ''Alice_001'' 41))
       = Some [[''d'', ''t'', ''n'', ''i'', ''c'']]"
  using record_attendance_idempotent [of "''Alice_001''"
     "(init (Some [[''d'', ''t'', ''n'', ''i'', ''c'']]))\<lparr>today_attendance := {''Alice_001''}\<rparr>"
     "(''2024-05-01'', ''09:00:00'')" "\<lambda>c. ''41.0''" True 41]
  by (simp add: init_def)

text \<open>
  Claim C3, as the code has it. For a key not yet in the day's set, a failed append
  does not reach the caller as an exception: the call prints an error and returns
  \<^verbatim>\<open>False\<close>, and the set is not changed. The key is added when the append succeeds,
  and the call then returns \<^verbatim>\<open>True\<close>.
\<close>

theorem append_failure_swallowed:
  assumes "name_id \<notin> today_attendance s"
  shows "snd (record_attendance now fmt False s name_id confidence) = Returned False
     \<and> today_attendance (fst (record_attendance now fmt False s name_id confidence)) = today_attendance s
     \<and> console (fst (record_attendance now fmt False s name_id confidence)) = console s @ [RecordError]
     \<and> snd (record_attendance now fmt True s name_id confidence) = Returned True
     \<and> today_attendance (fst (record_attendance now fmt True s name_id confidence)) = insert name_id (today_attendance s)"
  using assms by (simp add: record_attendance_def Let_def split: prod.splits)

theorem append_failure_swallowed_witness:
  "''Alice_001'' \<notin> today_attendance (init None)
   \<and> snd (record_attendance (''2024-05-01'', ''09:00:00'') (\<lambda>c. ''41.0'') False (init None) ''Alice_001'' 41) = Returned False
   \<and> today_attendance (fst (record_attendance (''2024-05-01'', ''09:00:00'') (\<lambda>c. ''41.0'') False (init None) ''Alice_001'' 41)) = {}
   \<and> today_attendance (fst (record_attendance (''2024-05-01'', ''09:00:00'') (\<lambda>c. ''41.0'') True (init None) ''Alice_001'' 41)) = {''Alice_001''}"
  using append_failure_swallowed [of "''Alice_001''" "init None" "(''2024-05-01'', ''09:00:00'')" "\<lambda>c. ''41.0''" 41]
  by (simp add: init_def)

text \<open>
  The call with a failing append on a fresh system ends by returning, not by raising.
\<close>

theorem append_failure_not_raised:
  "''Alice_001'' \<notin> today_attendance (init (Some [[''d'', ''t'', ''n'', ''i'', ''c'']])) \<and>
   snd (record_attendance (''2024-05-01'', ''09:00:00'') (\<lambda>c. ''41.0'') False
          (init (Some [[''d'', ''t'', ''n'', ''i'', ''c'']])) ''Alice_001'' 41) = Returned False"
  by (simp add: record_attendance_def init_def Let_def split: prod.splits)

text \<open>
  Claim C4, as the code has it. When the file exists and reading it raises after \<open>n\<close>
  rows, the call returns normally and prints a warning; the set it leaves holds the
  keys of today's rows among those read after the first row, and nothing of what it
  held before. It is empty when the file cannot be opened.
\<close>

theorem reload_failure_resets:
  assumes "attendance_file s = Some rows"
  shows "snd (load_today_attendance today (Some n) s) = Returned ()
    \<and> today_attendance (fst (load_today_attendance today (Some n) s))
        = row_key ` {r \<in> set (drop 1 (take n rows)). dated_today today r}
    \<and> console (fst (load_today_attendance today (Some n) s)) = console s @ [LoadWarning]
    \<and> today_attendance (fst (load_today_attendance today (Some 0) s)) = {}"
  using assms by (simp add: load_today_attendance_def Let_def scan_rows_image)

theorem reload_failure_resets_witness:
  "attendance_file ((init (Some [[''d'', ''t'', ''n'', ''i'', ''c''],
                   [''2024-05-01'', ''09:00:00'', ''Alice'', ''001'', ''41.0'']]))
        \<lparr>today_attendance := {''Alice_001''}\<rparr>)
     = Some [[''d'', ''t'', ''n'', ''i'', ''c''],
                   [''2024-05-01'', ''09:00:00'', ''Alice'', ''001'', ''41.0'']]
   \<and> snd (load_today_attendance ''2024-05-01'' (Some 1) ((init (Some [[''d'', ''t'', ''n'', ''i'', ''c''],
                   [''2024-05-01'', ''09:00:00'', ''Alice'', ''001'', ''41.0'']]))
        \<lparr>today_attendance := {''Alice_001''}\<rparr>)) = Returned ()
   \<and> today_attendance (fst (load_today_attendance ''2024-05-01'' (Some 1) ((init (Some [[''d'', ''t'', ''n'', ''i'', ''c''],
                   [''2024-05-01'', ''09:00:00'', ''Alice'', ''001'', ''41.0'']]))
        \<lparr>today_attendance := {''Alice_001''}\<rparr>))) = {}"
  using reload_failure_resets [of "(init (Some [[''d'', ''t'', ''n'', ''i'', ''c''],
                   [''2024-05-01'', ''09:00:00'', ''Alice'', ''001'', ''41.0'']]))
        \<lparr>today_attendance := {''Alice_001''}\<rparr>" "[[''d'', ''t'', ''n'', ''i'', ''c''],
                   [''2024-05-01'', ''09:00:00'', ''Alice'', ''001'', ''41.0'']]" "''2024-05-01''" 1]
  by (simp add: init_def)

text \<open>
  A set holding one key is not kept by a reload whose read fails at once.
\<close>

theorem reload_failure_loses_prior:
  "today_attendance (fst (load_today_attendance ''2024-05-01'' (Some 0)
      ((init (Some [[''d'', ''t'', ''n'', ''i'', ''c''],
                   [''2024-05-01'', ''09:00:00'', ''Alice'', ''001'', ''41.0'']]))
        \<lparr>today_attendance := {''Alice_001''}\<rparr>)))
   \<noteq> today_attendance ((init (Some [[''d'', ''t'', ''n'', ''i'', ''c''],
                   [''2024-05-01'', ''09:00:00'', ''Alice'', ''001'', ''41.0'']]))
        \<lparr>today_attendance := {''Alice_001''}\<rparr>)"
  by (simp add: load_today_attendance_def init_def Let_def scan_rows_def)

text \<open>
  Claim C7. For a file with a header row, a successful reload leaves exactly the keys
  of the rows dated today; when those rows have pairwise different keys their number
  is the size of the set; and two files with the same rows dated today give the same
  set, whatever other rows they hold.
\<close>

theorem reload_consistency:
  assumes "attendance_file s = Some (header # rows)"
    and "attendance_file s' = Some (header' # rows')"
    and "filter (dated_today today) rows' = filter (dated_today today) rows"
  shows "today_attendance (fst (load_today_attendance today None s))
           = row_key ` {r \<in> set rows. dated_today today r}
    \<and> (distinct (map row_key (filter (dated_today today) rows)) \<longrightarrow>
         card (today_attendance (fst (load_today_attendance today None s)))
           = length (filter (dated_today today) rows))
    \<and> today_attendance (fst (load_today_attendance today None s'))
           = today_attendance (fst (load_today_attendance today None s))"
proof -
  have a: "today_attendance (fst (load_today_attendance today None s)) = scan_rows today rows"
    using assms(1) by (simp add: load_today_attendance_def Let_def)
  have b: "today_attendance (fst (load_today_attendance today None s')) = scan_rows today rows'"
    using assms(2) by (simp add: load_today_attendance_def Let_def)
  have c: "scan_rows today rows' = scan_rows today rows"
    by (simp only: scan_rows_filter assms(3))
  have d: "distinct (map row_key (filter (dated_today today) rows)) \<Longrightarrow>
         card (scan_rows today rows) = length (filter (dated_today today) rows)"
    by (simp only: scan_rows_filter) (metis distinct_card length_map)
  show ?thesis using a b c d by (simp add: scan_rows_image)
qed


theorem reload_consistency_witness:
  "today_attendance (fst (load_today_attendance ''2024-05-01'' None
      (init (Some [[''d'', ''t'', ''n'', ''i'', ''c''],
                   [''2024-05-01'', ''09:00:00'', ''Alice'', ''001'', ''41.0''],
                   [''2024-04-30'', ''09:10:00'', ''Bob'', ''002'', ''38.5''],
                   [''2024-05-01'', ''09:20:00'', ''Carol'', ''003'', ''52.0'']]))))
     = {''Alice_001'', ''Carol_003''}
   \<and> card (today_attendance (fst (load_today_attendance ''2024-05-01'' None
      (init (Some [[''d'', ''t'', ''n'', ''i'', ''c''],
                   [''2024-05-01'', ''09:00:00'', ''Alice'', ''001'', ''41.0''],
                   [''2024-04-30'', ''09:10:00'', ''Bob'', ''002'', ''38.5''],
                   [''2024-05-01'', ''09:20:00'', ''Carol'', ''003'', ''52.0'']]))))) = 2
   \<and> today_attendance (fst (load_today_attendance ''2024-05-01'' None
      (init (Some [[''d'', ''t'', ''n'', ''i'', ''c''],
                   [''2024-05-01'', ''09:00:00'', ''Alice'', ''001'', ''41.0''],
                   [''2024-05-01'', ''09:20:00'', ''Carol'', ''003'', ''52.0'']]))))
     = {''Alice_001'', ''Carol_003''}"
proof -
  let ?h = "[''d'', ''t'', ''n'', ''i'', ''c'']"
  let ?a = "[''2024-05-01'', ''09:00:00'', ''Alice'', ''001'', ''41.0'']"
  let ?b = "[''2024-04-30'', ''09:10:00'', ''Bob'', ''002'', ''38.5'']"
  let ?c = "[''2024-05-01'', ''09:20:00'', ''Carol'', ''003'', ''52.0'']"
  have f1: "attendance_file (init (Some [?h, ?a, ?b, ?c])) = Some (?h # [?a, ?b, ?c])"
    by (simp add: init_def)
  have f2: "attendance_file (init (Some [?h, ?a, ?c])) = Some (?h # [?a, ?c])"
    by (simp add: init_def)
  have f3: "filter (dated_today ''2024-05-01'') [?a, ?c] = filter (dated_today ''2024-05-01'') [?a, ?b, ?c]"
    by (simp add: dated_today_def)
  have k: "row_key ` {r \<in> set [?a, ?b, ?c]. dated_today ''2024-05-01'' r} = {''Alice_001'', ''Carol_003''}"
    unfolding set_filter [symmetric]
    by (simp add: dated_today_def row_key_def join_name_id_def)
  have d: "distinct (map row_key (filter (dated_today ''2024-05-01'') [?a, ?b, ?c]))"
    by (simp add: dated_today_def row_key_def join_name_id_def)
  have l: "length (filter (dated_today ''2024-05-01'') [?a, ?b, ?c]) = 2"
    by (simp add: dated_today_def)
  show ?thesis
    using reload_consistency [OF f1 f2 f3] k d l by simp
qed

section \<open>Properties of the recognition smoother\<close>

lemma urb_state:
  "recognition_buffer (fst (update_recognition_buffer set_order s f n c)) =
     (recognition_buffer s)(f \<mapsto>
        (if int (length (slot_history s f @ [(n, c)])) > buffer_threshold s
         then tl (slot_history s f @ [(n, c)]) else slot_history s f @ [(n, c)]))"
  by (simp add: update_recognition_buffer_def slot_history_def Let_def
        split: sum.splits option.splits)

lemma urb_threshold:
  "buffer_threshold (fst (update_recognition_buffer set_order s f n c)) = buffer_threshold s"
  by (simp add: update_recognition_buffer_def Let_def split: sum.splits option.splits)

lemma urb_history:
  "slot_history (fst (update_recognition_buffer set_order s f n c)) g =
     (if g = f
      then (if int (length (slot_history s f @ [(n, c)])) > buffer_threshold s
            then tl (slot_history s f @ [(n, c)]) else slot_history s f @ [(n, c)])
      else slot_history s g)"
  by (simp add: urb_state slot_history_def)

lemma urb_result:
  "snd (update_recognition_buffer set_order s f n c) =
     (let hist = slot_history (fst (update_recognition_buffer set_order s f n c)) f;
          names = map fst hist
      in if int (length hist) \<ge> buffer_threshold s
         then (case most_common_name set_order names of
                 Inl e \<Rightarrow> Raised e
               | Inr m \<Rightarrow>
                   if int (count_list names m) \<ge> buffer_threshold s - 1
                   then (if count_list names m = 0 then Raised ZeroDivisionError
                         else Returned (Some (m,
                           sum_list (map snd (filter (\<lambda>item. fst item = m) hist))
                             / real (count_list names m))))
                   else Returned None)
         else Returned None)"
  unfolding urb_history
  by (simp add: update_recognition_buffer_def slot_history_def Let_def
        split: sum.splits option.splits)

lemma last_n_snoc:
  "length old \<le> k \<Longrightarrow>
     (if int (length (old @ [ob])) > int k then tl (old @ [ob]) else old @ [ob])
       = last_n k (old @ [ob])"
  by (cases old) (auto simp: last_n_def Suc_diff_le)

lemma last_n_last_n_snoc:
  "last_n k (last_n k xs @ [x]) = last_n k (xs @ [x])"
proof (cases "length xs \<le> k")
  case True
  then show ?thesis by (simp add: last_n_def)
next
  case False
  then have "Suc (length xs - k) = Suc (length xs) - k" by arith
  with False show ?thesis by (simp add: last_n_def)
qed

lemma length_last_n: "length (last_n k xs) \<le> k"
  by (simp add: last_n_def)

lemma last_n_all: "length xs \<le> k \<Longrightarrow> last_n k xs = xs"
  by (simp add: last_n_def)

lemma foldl_max_first:
  "\<exists>pre post. x # xs = pre @ foldl (\<lambda>best y. if key best < key y then y else best) x xs # post
      \<and> (\<forall>y\<in>set pre. key y < key (foldl (\<lambda>best y. if key best < (key y :: nat) then y else best) x xs))
      \<and> (\<forall>y\<in>set post. key y \<le> key (foldl (\<lambda>best y. if key best < key y then y else best) x xs))"
proof (induction xs rule: rev_induct)
  case Nil
  show ?case by (intro exI[of _ "[]"]) simp
next
  case (snoc y xs)
  let ?m = "foldl (\<lambda>best y. if key best < key y then y else best) x xs"
  from snoc obtain pre post where
    sp: "x # xs = pre @ ?m # post"
    and lt: "\<forall>z\<in>set pre. key z < key ?m"
    and le: "\<forall>z\<in>set post. key z \<le> key ?m" by blast
  show ?case
  proof (cases "key ?m < key y")
    case True
    have all: "\<forall>z\<in>set (x # xs). key z < key y"
      using sp lt le True by (simp only: sp) auto
    have "x # xs @ [y] = (x # xs) @ y # []" by simp
    with all True show ?thesis
      by (intro exI[of _ "x # xs"] exI[of _ "[]"]) simp
  next
    case False
    have "x # xs @ [y] = pre @ ?m # (post @ [y])" using sp by simp
    with lt le False show ?thesis
      by (intro exI[of _ pre] exI[of _ "post @ [y]"]) auto
  qed
qed

lemma py_max_first:
  assumes "es \<noteq> []"
  shows "\<exists>m pre post. py_max key es = Inr m \<and> es = pre @ m # post
      \<and> (\<forall>y\<in>set pre. key y < key m) \<and> (\<forall>y\<in>set post. key y \<le> key m)"
proof -
  from assms obtain x xs where es: "es = x # xs" by (cases es) auto
  show ?thesis using foldl_max_first[of x xs key] unfolding es by auto
qed

lemma py_max_unique:
  assumes "a \<in> set es" and "\<forall>b\<in>set es. b \<noteq> a \<longrightarrow> key b < key a"
  shows "py_max key es = Inr a"
proof -
  have "es \<noteq> []" using assms(1) by auto
  from py_max_first[OF this, of key] obtain m pre post where
    r: "py_max key es = Inr m" and sp: "es = pre @ m # post"
    and lt: "\<forall>y\<in>set pre. key y < key m" and le: "\<forall>y\<in>set post. key y \<le> key m" by blast
  have "m = a"
  proof (rule ccontr)
    assume ne: "m \<noteq> a"
    have "m \<in> set es" using sp by simp
    then have "key m < key a" using assms(2) ne by blast
    moreover have "key a \<le> key m" using assms(1) sp lt le ne by auto
    ultimately show False by simp
  qed
  with r show ?thesis by simp
qed

lemma count_list_two:
  "a \<noteq> b \<Longrightarrow> count_list xs a + count_list xs b \<le> length xs"
  by (induction xs) auto

lemma count_list_filter_fst:
  "count_list (map fst xs) a = length (filter (\<lambda>item. fst item = a) xs)"
  by (induction xs) auto


lemma last_n_last_n_append:
  "last_n k (last_n k xs @ ys) = last_n k (xs @ ys)"
proof (cases "length xs \<le> k")
  case True
  then show ?thesis by (simp add: last_n_def)
next
  case False
  then have e: "length xs - (length xs - k) = k" by arith
  have f: "length ys + (length xs - k) = length xs + length ys - k" using False by arith
  have g: "length xs + length ys - k - length xs = length ys - k" using False by arith
  show ?thesis
    by (simp add: last_n_def e f g add.commute)
qed

lemma last_n_append_full: "length ys = k \<Longrightarrow> last_n k (xs @ ys) = ys"
  by (simp add: last_n_def)

lemma urb_history_last_n:
  assumes "buffer_threshold s = int k" and "length (slot_history s f) \<le> k"
  shows "slot_history (fst (update_recognition_buffer set_order s f n c)) g =
           (if g = f then last_n k (slot_history s f @ [(n, c)]) else slot_history s g)"
  using last_n_snoc[OF assms(2), of "(n, c)"] assms(1)
  by (simp add: urb_history)

lemma run_calls_threshold:
  "buffer_threshold (run_calls set_order s calls) = buffer_threshold s"
  by (induction calls arbitrary: s) (simp_all add: urb_threshold)

lemma run_calls_history:
  assumes "buffer_threshold s = int k" and "length (slot_history s g) \<le> k"
  shows "slot_history (run_calls set_order s calls) g =
           last_n k (slot_history s g @ map snd (filter (\<lambda>c. fst c = g) calls))"
  using assms
proof (induction calls arbitrary: s)
  case Nil
  then show ?case by (simp add: last_n_all)
next
  case (Cons c cs)
  let ?s1 = "fst (update_recognition_buffer set_order s (fst c) (fst (snd c)) (snd (snd c)))"
  have h1: "slot_history ?s1 g =
      (if fst c = g then last_n k (slot_history s g @ [snd c]) else slot_history s g)"
  proof (cases "fst c = g")
    case True
    then show ?thesis
      using urb_history_last_n[OF Cons.prems(1), of g set_order "fst (snd c)" "snd (snd c)" g]
        Cons.prems(2) by simp
  next
    case False
    then show ?thesis by (auto simp: urb_history)
  qed
  have t1: "buffer_threshold ?s1 = int k" using Cons.prems(1) by (simp add: urb_threshold)
  have l1: "length (slot_history ?s1 g) \<le> k"
    using Cons.prems(2) by (simp add: h1 length_last_n)
  have "slot_history (run_calls set_order ?s1 cs) g =
      last_n k (slot_history ?s1 g @ map snd (filter (\<lambda>c. fst c = g) cs))"
    by (rule Cons.IH[OF t1 l1])
  then show ?case
    by (simp add: h1 last_n_last_n_append)
qed

lemma run_calls_dom:
  "dom (recognition_buffer (run_calls set_order s calls)) =
     dom (recognition_buffer s) \<union> fst ` set calls"
  by (induction calls arbitrary: s) (auto simp: urb_state)

text \<open>
  Claim C8. Starting from the empty buffer with threshold \<open>k\<close>, after any sequence of
  calls a slot that occurred in a call holds the last \<open>k\<close> observations given for it,
  in their order (all of them when there were fewer), a slot that did not occur holds
  nothing, and no history is longer than \<open>k\<close>.
\<close>

theorem bounded_fifo:
  assumes "recognition_buffer s = Map.empty" and "buffer_threshold s = int k"
  shows "recognition_buffer (run_calls set_order s calls) g =
           (if g \<in> fst ` set calls
            then Some (last_n k (map snd (filter (\<lambda>c. fst c = g) calls)))
            else None)
       \<and> length (slot_history (run_calls set_order s calls) g) \<le> k"
proof -
  have e: "length (slot_history s g) \<le> k"
    using assms(1) by (simp add: slot_history_def)
  have h: "slot_history (run_calls set_order s calls) g =
             last_n k (map snd (filter (\<lambda>c. fst c = g) calls))"
    using run_calls_history[OF assms(2) e, of set_order calls] assms(1)
    by (simp add: slot_history_def)
  have d: "dom (recognition_buffer (run_calls set_order s calls)) = fst ` set calls"
    using assms(1) by (simp add: run_calls_dom)
  show ?thesis
  proof (cases "g \<in> fst ` set calls")
    case True
    then obtain hs where "recognition_buffer (run_calls set_order s calls) g = Some hs"
      using d by blast
    with h True show ?thesis by (simp add: slot_history_def length_last_n)
  next
    case False
    then have "recognition_buffer (run_calls set_order s calls) g = None"
      using d by blast
    with False show ?thesis by (simp add: slot_history_def)
  qed
qed


theorem bounded_fifo_witness:
  "recognition_buffer (run_calls remdups (init None)
      [(''face_0'', ''Alice_001'', 40), (''face_1'', ''Bob_002'', 55),
       (''face_0'', ''Alice_001'', 42), (''face_0'', ''Bob_002'', 50),
       (''face_0'', ''Carol_003'', 61)]) ''face_0''
     = Some [(''Alice_001'', 42), (''Bob_002'', 50), (''Carol_003'', 61)]
   \<and> length (slot_history (run_calls remdups (init None)
      [(''face_0'', ''Alice_001'', 40), (''face_1'', ''Bob_002'', 55),
       (''face_0'', ''Alice_001'', 42), (''face_0'', ''Bob_002'', 50),
       (''face_0'', ''Carol_003'', 61)]) ''face_0'') \<le> 3"
proof -
  let ?calls = "[(''face_0'', ''Alice_001'', 40::real), (''face_1'', ''Bob_002'', 55),
       (''face_0'', ''Alice_001'', 42), (''face_0'', ''Bob_002'', 50),
       (''face_0'', ''Carol_003'', 61)]"
  have h1: "recognition_buffer (init None) = Map.empty" by (simp add: init_def)
  have h2: "buffer_threshold (init None) = int 3" by (simp add: init_def)
  have r: "(if ''face_0'' \<in> fst ` set ?calls
            then Some (last_n 3 (map snd (filter (\<lambda>c. fst c = ''face_0'') ?calls)))
            else None) = Some [(''Alice_001'', 42), (''Bob_002'', 50), (''Carol_003'', 61)]"
    by (simp add: last_n_def)
  show ?thesis
    using bounded_fifo [OF h1 h2, of remdups ?calls "''face_0''"] unfolding r by blast
qed


lemma observe_all_run_calls:
  "fst (observe_all set_order s f obs) = run_calls set_order s (map (\<lambda>ob. (f, ob)) obs)"
  by (induction obs arbitrary: s) (simp_all add: split_beta)

lemma observe_all_snoc:
  "snd (observe_all set_order s f (obs @ [ob])) =
     snd (observe_all set_order s f obs) @
       [snd (update_recognition_buffer set_order (fst (observe_all set_order s f obs)) f (fst ob) (snd ob))]"
  by (induction obs arbitrary: s) (simp_all add: split_beta)

lemma observe_all_below:
  assumes "int (length (slot_history s f) + length obs) < buffer_threshold s"
  shows "snd (observe_all set_order s f obs) = replicate (length obs) (Returned None)"
  using assms
proof (induction obs arbitrary: s)
  case Nil
  then show ?case by simp
next
  case (Cons ob obs)
  let ?s1 = "fst (update_recognition_buffer set_order s f (fst ob) (snd ob))"
  have h: "slot_history ?s1 f = slot_history s f @ [ob]"
    using Cons.prems by (simp add: urb_history)
  have r: "snd (update_recognition_buffer set_order s f (fst ob) (snd ob)) = Returned None"
    using Cons.prems by (simp add: urb_result Let_def h)
  have "int (length (slot_history ?s1 f) + length obs) < buffer_threshold ?s1"
    using Cons.prems by (simp add: h urb_threshold)
  from Cons.IH[OF this] r show ?case by (simp add: split_beta)
qed

lemma most_common_majority:
  assumes si: "set_iteration set_order"
    and k: "3 \<le> length names"
    and maj: "length names - 1 \<le> count_list names a"
  shows "most_common_name set_order names = Inr a"
proof -
  have pos: "0 < count_list names a" using k maj by arith
  then have "a \<in> set names" by (metis count_list_0_iff less_numeral_extra(3))
  then have m: "a \<in> set (set_order names)" using si by (simp add: set_iteration_def)
  have "\<forall>b\<in>set (set_order names). b \<noteq> a \<longrightarrow> count_list names b < count_list names a"
  proof (intro ballI impI)
    fix b assume "b \<noteq> a"
    then have "count_list names a + count_list names b \<le> length names"
      by (simp add: count_list_two)
    with k maj show "count_list names b < count_list names a" by arith
  qed
  with m show ?thesis unfolding most_common_name_def by (rule py_max_unique)
qed


text \<open>
  Claim C2. With a threshold \<open>K\<close> of at least three, feed \<open>K\<close> observations to a slot
  whose history is no longer than \<open>K\<close>. When an identity has at least \<open>K - 1\<close> of
  them, the call for the last observation returns that identity with the arithmetic
  mean of its confidences among the \<open>K\<close>; for a slot that was empty, every earlier
  call returns nothing.
\<close>

theorem quorum_correctness:
  assumes si: "set_iteration set_order"
    and K: "buffer_threshold s = int (length obs)"
    and k3: "3 \<le> length obs"
    and inv: "length (slot_history s f) \<le> length obs"
    and maj: "length obs - 1 \<le> count_list (map fst obs) a"
  shows "last (snd (observe_all set_order s f obs)) =
           Returned (Some (a, sum_list (map snd (filter (\<lambda>ob. fst ob = a) obs))
                               / real (length (filter (\<lambda>ob. fst ob = a) obs))))
       \<and> (slot_history s f = [] \<longrightarrow>
            butlast (snd (observe_all set_order s f obs)) =
              replicate (length obs - 1) (Returned None))"
proof -
  let ?k = "length obs"
  from k3 have ne: "obs \<noteq> []" by auto
  define obs' where "obs' = butlast obs"
  define ob where "ob = last obs"
  have sp: "obs = obs' @ [ob]" using ne by (simp add: obs'_def ob_def)
  let ?s1 = "fst (observe_all set_order s f obs')"
  have t1: "buffer_threshold ?s1 = int ?k"
    using K by (simp add: observe_all_run_calls run_calls_threshold)
  have h1: "slot_history ?s1 f = last_n ?k (slot_history s f @ obs')"
    using run_calls_history[OF K inv, of set_order "map (\<lambda>ob. (f, ob)) obs'"]
    by (simp add: observe_all_run_calls filter_map comp_def)
  let ?s2 = "fst (update_recognition_buffer set_order ?s1 f (fst ob) (snd ob))"
  have h2: "slot_history ?s2 f = obs"
  proof -
    have "slot_history ?s2 f = last_n ?k (slot_history ?s1 f @ [ob])"
      using urb_history_last_n[OF t1, of f set_order "fst ob" "snd ob" f]
      by (simp add: h1 length_last_n)
    also have "\<dots> = last_n ?k ((slot_history s f @ obs') @ [ob])"
      by (simp only: h1 last_n_last_n_append)
    also have "\<dots> = obs" using sp by (simp add: last_n_append_full)
    finally show ?thesis .
  qed
  have mc: "most_common_name set_order (map fst obs) = Inr a"
    using most_common_majority[OF si, of "map fst obs" a] k3 maj by simp
  have cnt: "count_list (map fst obs) a = length (filter (\<lambda>ob. fst ob = a) obs)"
    by (rule count_list_filter_fst)
  have pos: "0 < count_list (map fst obs) a" using k3 maj by arith
  have ge: "int (length obs) - 1 \<le> int (count_list (map fst obs) a)" using maj by arith
  have r: "snd (update_recognition_buffer set_order ?s1 f (fst ob) (snd ob)) =
      Returned (Some (a, sum_list (map snd (filter (\<lambda>ob. fst ob = a) obs))
                               / real (length (filter (\<lambda>ob. fst ob = a) obs))))"
    using pos ge by (simp add: urb_result Let_def h2 t1 mc cnt [symmetric])
  have res: "snd (observe_all set_order s f obs) =
      snd (observe_all set_order s f obs') @
        [snd (update_recognition_buffer set_order ?s1 f (fst ob) (snd ob))]"
    unfolding sp by (rule observe_all_snoc)
  have fresh: "slot_history s f = [] \<Longrightarrow>
      snd (observe_all set_order s f obs') = replicate (length obs - 1) (Returned None)"
  proof -
    assume e: "slot_history s f = []"
    have "int (length (slot_history s f) + length obs') < buffer_threshold s"
      using e K sp by simp
    from observe_all_below[OF this, of set_order] show ?thesis using sp by simp
  qed
  show ?thesis using fresh by (simp add: res r)
qed


lemma set_iteration_remdups: "set_iteration remdups"
  by (simp add: set_iteration_def)

theorem quorum_correctness_witness:
  "set_iteration remdups
   \<and> last (snd (observe_all remdups (init None) ''face_0''
        [(''Alice_001'', 40), (''Alice_001'', 42), (''Bob_002'', 50)]))
      = Returned (Some (''Alice_001'', 41))
   \<and> butlast (snd (observe_all remdups (init None) ''face_0''
        [(''Alice_001'', 40), (''Alice_001'', 42), (''Bob_002'', 50)]))
      = [Returned None, Returned None]"
proof -
  let ?obs = "[(''Alice_001'', 40::real), (''Alice_001'', 42), (''Bob_002'', 50)]"
  have K: "buffer_threshold (init None) = int (length ?obs)" by (simp add: init_def)
  have k3: "3 \<le> length ?obs" by simp
  have e: "slot_history (init None) ''face_0'' = []" by (simp add: slot_history_def init_def)
  have inv: "length (slot_history (init None) ''face_0'') \<le> length ?obs" by (simp add: e)
  have maj: "length ?obs - 1 \<le> count_list (map fst ?obs) ''Alice_001''" by simp
  have m: "sum_list (map snd (filter (\<lambda>ob. fst ob = ''Alice_001'') ?obs))
             / real (length (filter (\<lambda>ob. fst ob = ''Alice_001'') ?obs)) = 41" by simp
  have r: "replicate (length ?obs - 1) (Returned None :: observation option outcome)
             = [Returned None, Returned None]" by (simp add: numeral_2_eq_2)
  show ?thesis
    using quorum_correctness [OF set_iteration_remdups K k3 inv maj] e set_iteration_remdups
    unfolding m r by blast
qed

text \<open>
  Claim C5. A call returns nothing when the history the slot holds after it is shorter
  than the threshold, and when no identity occurs at least threshold minus one times
  in that history.
\<close>

theorem sub_quorum_silence:
  assumes si: "set_iteration set_order"
  shows "(int (length (slot_history (fst (update_recognition_buffer set_order s f n c)) f))
            < buffer_threshold s
          \<longrightarrow> snd (update_recognition_buffer set_order s f n c) = Returned None)
       \<and> ((\<forall>m. int (count_list
                      (map fst (slot_history (fst (update_recognition_buffer set_order s f n c)) f)) m)
                 < buffer_threshold s - 1)
          \<longrightarrow> snd (update_recognition_buffer set_order s f n c) = Returned None)"
proof (intro conjI impI)
  assume "int (length (slot_history (fst (update_recognition_buffer set_order s f n c)) f))
            < buffer_threshold s"
  then show "snd (update_recognition_buffer set_order s f n c) = Returned None"
    by (simp add: urb_result Let_def)
next
  let ?hist = "slot_history (fst (update_recognition_buffer set_order s f n c)) f"
  let ?names = "map fst ?hist"
  assume low: "\<forall>m. int (count_list ?names m) < buffer_threshold s - 1"
  then have "int (count_list ?names n) < buffer_threshold s - 1" by blast
  then have k2: "2 \<le> buffer_threshold s" by linarith
  show "snd (update_recognition_buffer set_order s f n c) = Returned None"
  proof (cases "buffer_threshold s \<le> int (length ?hist)")
    case False
    then show ?thesis by (simp add: urb_result Let_def)
  next
    case True
    with k2 have "?names \<noteq> []" by auto
    then have "set_order ?names \<noteq> []"
      using si unfolding set_iteration_def by (metis set_empty)
    from py_max_first[OF this, of "count_list ?names"] obtain m where
      mc: "most_common_name set_order ?names = Inr m"
      unfolding most_common_name_def by blast
    have "\<not> buffer_threshold s - 1 \<le> int (count_list ?names m)"
      using low by (simp add: not_le)
    with True mc show ?thesis
      by (simp add: urb_result Let_def)
  qed
qed

theorem sub_quorum_silence_witness:
  "set_iteration remdups
   \<and> snd (update_recognition_buffer remdups (init None) ''face_0'' ''Alice_001'' 40) = Returned None
   \<and> snd (update_recognition_buffer remdups
        ((init None)\<lparr>recognition_buffer := [''face_0'' \<mapsto> [(''Alice_001'', 40), (''Bob_002'', 50)]]\<rparr>)
        ''face_0'' ''Carol_003'' 61) = Returned None"
proof -
  let ?s = "(init None)\<lparr>recognition_buffer := [''face_0'' \<mapsto> [(''Alice_001'', 40), (''Bob_002'', 50)]]\<rparr>"
  have a: "slot_history (fst (update_recognition_buffer remdups (init None) ''face_0'' ''Alice_001'' 40)) ''face_0''
        = [(''Alice_001'', 40)]"
    unfolding urb_history by (simp add: slot_history_def init_def)
  have b: "slot_history (fst (update_recognition_buffer remdups ?s ''face_0'' ''Carol_003'' 61)) ''face_0''
        = [(''Alice_001'', 40), (''Bob_002'', 50), (''Carol_003'', 61)]"
    unfolding urb_history by (simp add: slot_history_def init_def)
  have ta: "buffer_threshold (init None) = 3" by (simp add: init_def)
  have tb: "buffer_threshold ?s = 3" by (simp add: init_def)
  have short: "int (length [(''Alice_001'', 40::real)]) < 3" by simp
  have low: "\<forall>m. int (count_list (map fst [(''Alice_001'', 40::real), (''Bob_002'', 50), (''Carol_003'', 61)]) m) < 3 - 1"
    by auto
  from sub_quorum_silence [OF set_iteration_remdups, of "init None" "''face_0''" "''Alice_001''" 40]
  have r1: "snd (update_recognition_buffer remdups (init None) ''face_0'' ''Alice_001'' 40) = Returned None"
    unfolding a ta using short by blast
  from sub_quorum_silence [OF set_iteration_remdups, of ?s "''face_0''" "''Carol_003''" 61]
  have r2: "snd (update_recognition_buffer remdups ?s ''face_0'' ''Carol_003'' 61) = Returned None"
    unfolding b tb using low by blast
  show ?thesis using r1 r2 set_iteration_remdups by blast
qed

text \<open>
  Claim C9. When the slot holds a full, non-empty window after a call, the identity
  the call selects is the first one, in the iteration order of the set of names, whose
  count in the window is largest: every identity iterated before it has a strictly
  smaller count and no identity has a larger one. The call returns that identity, with
  the mean of its confidences, when its count reaches threshold minus one, and nothing
  otherwise.
\<close>

theorem tie_break_first_max:
  assumes si: "set_iteration set_order"
    and ne: "slot_history (fst (update_recognition_buffer set_order s f n c)) f \<noteq> []"
    and full: "buffer_threshold s
                 \<le> int (length (slot_history (fst (update_recognition_buffer set_order s f n c)) f))"
  shows "\<exists>m pre post.
           most_common_name set_order
             (map fst (slot_history (fst (update_recognition_buffer set_order s f n c)) f)) = Inr m
         \<and> set_order (map fst (slot_history (fst (update_recognition_buffer set_order s f n c)) f))
             = pre @ m # post
         \<and> (\<forall>y\<in>set pre.
               count_list (map fst (slot_history (fst (update_recognition_buffer set_order s f n c)) f)) y
               < count_list (map fst (slot_history (fst (update_recognition_buffer set_order s f n c)) f)) m)
         \<and> (\<forall>y.
               count_list (map fst (slot_history (fst (update_recognition_buffer set_order s f n c)) f)) y
               \<le> count_list (map fst (slot_history (fst (update_recognition_buffer set_order s f n c)) f)) m)
         \<and> snd (update_recognition_buffer set_order s f n c) =
             (if buffer_threshold s - 1 \<le>
                   int (count_list (map fst (slot_history (fst (update_recognition_buffer set_order s f n c)) f)) m)
              then Returned (Some (m,
                     sum_list (map snd (filter (\<lambda>item. fst item = m)
                        (slot_history (fst (update_recognition_buffer set_order s f n c)) f)))
                     / real (count_list (map fst (slot_history (fst (update_recognition_buffer set_order s f n c)) f)) m)))
              else Returned None)"
proof -
  let ?hist = "slot_history (fst (update_recognition_buffer set_order s f n c)) f"
  let ?names = "map fst ?hist"
  have es: "set (set_order ?names) = set ?names" using si by (simp add: set_iteration_def)
  have "set_order ?names \<noteq> []" using ne es by (metis map_is_Nil_conv set_empty)
  from py_max_first[OF this, of "count_list ?names"] obtain m pre post where
    mc: "most_common_name set_order ?names = Inr m"
    and sp: "set_order ?names = pre @ m # post"
    and lt: "\<forall>y\<in>set pre. count_list ?names y < count_list ?names m"
    and le: "\<forall>y\<in>set post. count_list ?names y \<le> count_list ?names m"
    unfolding most_common_name_def by blast
  have all: "\<forall>y. count_list ?names y \<le> count_list ?names m"
  proof
    fix y
    show "count_list ?names y \<le> count_list ?names m"
    proof (cases "y \<in> set ?names")
      case True
      then have "y \<in> set (pre @ m # post)" using es sp by simp
      then show ?thesis using lt le by (auto simp: less_imp_le)
    next
      case False
      then have "count_list ?names y = 0" by (simp add: count_list_0_iff)
      then show ?thesis by simp
    qed
  qed
  have "m \<in> set ?names" using es sp by auto
  then have pos: "count_list ?names m \<noteq> 0" by (simp add: count_list_0_iff)
  have r: "snd (update_recognition_buffer set_order s f n c) =
             (if buffer_threshold s - 1 \<le> int (count_list ?names m)
              then Returned (Some (m,
                     sum_list (map snd (filter (\<lambda>item. fst item = m) ?hist))
                     / real (count_list ?names m)))
              else Returned None)"
    using full mc pos by (simp add: urb_result Let_def)
  show ?thesis using mc sp lt all r by blast
qed


theorem tie_break_first_max_witness:
  "set_iteration remdups
   \<and> slot_history (fst (update_recognition_buffer remdups
        ((init None)\<lparr>recognition_buffer := [''face_0'' \<mapsto> [(''Alice_001'', 40), (''Bob_002'', 50)]]\<rparr>)
        ''face_0'' ''Carol_003'' 61)) ''face_0''
       = [(''Alice_001'', 40), (''Bob_002'', 50), (''Carol_003'', 61)]
   \<and> most_common_name remdups [''Alice_001'', ''Bob_002'', ''Carol_003''] = Inr ''Alice_001''
   \<and> snd (update_recognition_buffer remdups
        ((init None)\<lparr>recognition_buffer := [''face_0'' \<mapsto> [(''Alice_001'', 40), (''Bob_002'', 50)]]\<rparr>)
        ''face_0'' ''Carol_003'' 61) = Returned None"
proof -
  let ?s = "(init None)\<lparr>recognition_buffer := [''face_0'' \<mapsto> [(''Alice_001'', 40), (''Bob_002'', 50)]]\<rparr>"
  let ?names = "[''Alice_001'', ''Bob_002'', ''Carol_003'']"
  have h: "slot_history (fst (update_recognition_buffer remdups ?s ''face_0'' ''Carol_003'' 61)) ''face_0''
        = [(''Alice_001'', 40), (''Bob_002'', 50), (''Carol_003'', 61)]"
    unfolding urb_history by (simp add: slot_history_def init_def)
  have t: "buffer_threshold ?s = 3" by (simp add: init_def)
  have ne: "slot_history (fst (update_recognition_buffer remdups ?s ''face_0'' ''Carol_003'' 61)) ''face_0'' \<noteq> []"
    by (simp only: h) simp
  have full: "buffer_threshold ?s
      \<le> int (length (slot_history (fst (update_recognition_buffer remdups ?s ''face_0'' ''Carol_003'' 61)) ''face_0''))"
    by (simp only: h t) simp
  have nm: "map fst [(''Alice_001'', 40::real), (''Bob_002'', 50), (''Carol_003'', 61)] = ?names"
    by simp
  have rd: "remdups ?names = ?names" by simp
  from tie_break_first_max [OF set_iteration_remdups ne full]
  obtain m pre post where
    mc: "most_common_name remdups ?names = Inr m"
    and sp: "?names = pre @ m # post"
    and lt: "\<forall>y\<in>set pre. count_list ?names y < count_list ?names m"
    and r: "snd (update_recognition_buffer remdups ?s ''face_0'' ''Carol_003'' 61) =
             (if 3 - 1 \<le> int (count_list ?names m)
              then Returned (Some (m,
                     sum_list (map snd (filter (\<lambda>item. fst item = m)
                        [(''Alice_001'', 40), (''Bob_002'', 50), (''Carol_003'', 61)]))
                     / real (count_list ?names m)))
              else Returned None)"
    unfolding h t nm rd by blast
  have one: "\<And>y. count_list ?names y \<le> 1" by auto
  have a1: "count_list ?names ''Alice_001'' = 1" by simp
  have "pre = []"
  proof (rule ccontr)
    assume "pre \<noteq> []"
    then have "''Alice_001'' \<in> set pre" using sp by (cases pre) auto
    then have "count_list ?names ''Alice_001'' < count_list ?names m" using lt by blast
    then have "1 < count_list ?names m" by (simp only: a1)
    with one[of m] show False by linarith
  qed
  then have m: "m = ''Alice_001''" using sp by simp
  have "snd (update_recognition_buffer remdups ?s ''face_0'' ''Carol_003'' 61) = Returned None"
    using r unfolding m by simp
  then show ?thesis using h mc set_iteration_remdups unfolding m by blast
qed

end
